theory Spec2Isabelle
  imports Main "HOL-Library.Word"
begin

section \<open>The coordinator of server.js: rooms, matchmaking queue and relay\<close>

text \<open>
  The development follows \<^verbatim>\<open>server.js\<close>. Every Socket.IO event handler that reads or
  writes \<^verbatim>\<open>rooms\<close> or \<^verbatim>\<open>matchmakingQueue\<close> is a function from the server
  state, the id of the socket the handler belongs to and the payload fields, to the new
  state and the list of emissions in program order. A synchronous JavaScript handler
  runs to completion before the next event is handled, so a handler is one state
  transition.

  Payloads carry the fields their handler destructures, with the types that line 164
  documents: a time control is a string token and \<^verbatim>\<open>ignoreTime\<close> a boolean.

  The analytics bookkeeping (the \<^verbatim>\<open>fingerprint\<close> handler, \<^verbatim>\<open>activeSessions\<close>,
  the \<^verbatim>\<open>analytics\<close> counters and the \<^verbatim>\<open>analyticsUpdate\<close> broadcast inside the
  disconnect handler) neither reads nor writes rooms or the queue and is not part of
  the state below.
\<close>

subsection \<open>Data\<close>

type_synonym sid = string \<comment> \<open>\<^verbatim>\<open>socket.id\<close>\<close>
type_synonym rid = string \<comment> \<open>a room id, chosen by the client or generated on a match\<close>
type_synonym json = string \<comment> \<open>an opaque payload value, never inspected by the server\<close>
type_synonym u8 = "8 word"

text \<open>A value of the \<^verbatim>\<open>rooms\<close> map (lines 227-232 and 370-375).\<close>

record room =
  players :: "sid list"
  white :: sid
  black :: "sid option"
  timeControl :: "string option"

text \<open>
  An element of \<^verbatim>\<open>matchmakingQueue\<close> (line 164: socketId, timeControl, ignoreTime).
  The time control of an entry is named \<open>entryTimeControl\<close> because a record field
  \<open>timeControl\<close> exists for rooms already.
\<close>

record queue_entry =
  socketId :: sid
  entryTimeControl :: string
  ignoreTime :: bool

text \<open>The fields that the move handler copies from the payload (line 273).\<close>

record move_data =
  move_from :: json
  move_to :: json
  moveType :: json
  whiteTime :: json
  blackTime :: json
  timestamp :: json

text \<open>Outbound events, one constructor per event name emitted by the handlers.\<close>

datatype event =
    RequestFingerprint
  | ErrorEv string
  | RoomCreated rid
  | RoomJoined rid
  | TimeControlSync string
  | OpponentJoined
  | OpponentMove move_data
  | GameOverEv json
  | RematchRequestEv
  | RematchAccepted
  | RematchDeclined
  | MatchFound rid string string
  | Searching
  | OpponentDisconnected

text \<open>An emission: the set of sockets the event is delivered to, and the event.\<close>

type_synonym emission = "sid set \<times> event"

text \<open>
  The server state. \<open>rooms\<close> is the JavaScript \<^verbatim>\<open>Map\<close> of line 161, kept as an
  association list in insertion order (the order \<^verbatim>\<open>forEach\<close> visits).
  \<open>sockets\<close> is the key set of \<^verbatim>\<open>io.sockets.sockets\<close>, the connected sockets, and
  \<open>adapterRooms\<close> is the room membership kept by Socket.IO itself
  (\<^verbatim>\<open>socket.join\<close>, \<^verbatim>\<open>socket.leave\<close>), which is a different structure from
  \<open>rooms\<close>: relays are addressed through it.
\<close>

record server =
  rooms :: "(rid \<times> room) list"
  matchmakingQueue :: "queue_entry list"
  sockets :: "sid set"
  adapterRooms :: "rid \<Rightarrow> sid set"

definition initial :: server where
  "initial = \<lparr>rooms = [], matchmakingQueue = [], sockets = {}, adapterRooms = (\<lambda>r. {})\<rparr>"

subsection \<open>The JavaScript Map and Array operations the handlers use\<close>

text \<open>\<^verbatim>\<open>Map.prototype.set\<close>: an existing key keeps its position, a new key goes last.\<close>

primrec mapSet :: "'k \<Rightarrow> 'v \<Rightarrow> ('k \<times> 'v) list \<Rightarrow> ('k \<times> 'v) list" where
  "mapSet k v [] = [(k, v)]"
| "mapSet k v (p # ps) = (if fst p = k then (k, v) # ps else p # mapSet k v ps)"

definition mapDelete :: "'k \<Rightarrow> ('k \<times> 'v) list \<Rightarrow> ('k \<times> 'v) list" where
  "mapDelete k m = filter (\<lambda>p. fst p \<noteq> k) m"

definition mapGet :: "('k \<times> 'v) list \<Rightarrow> 'k \<Rightarrow> 'v option" where
  "mapGet m k = map_of m k"

text \<open>\<^verbatim>\<open>Array.prototype.findIndex\<close>: the first index whose element satisfies the predicate, or -1.\<close>

fun findIndex :: "('a \<Rightarrow> bool) \<Rightarrow> 'a list \<Rightarrow> int" where
  "findIndex P [] = -1"
| "findIndex P (x # xs) =
     (if P x then 0 else (let r = findIndex P xs in if r = -1 then -1 else r + 1))"

text \<open>\<^verbatim>\<open>xs.splice(i, 1)\<close> for an index inside the array: the element at \<open>i\<close> is removed.\<close>

definition splice1 :: "'a list \<Rightarrow> nat \<Rightarrow> 'a list" where
  "splice1 xs i = take i xs @ drop (Suc i) xs"

subsection \<open>Socket.IO as the handlers use it\<close>

text \<open>
  Modelled from the behaviour of the library: \<^verbatim>\<open>socket.join(r)\<close> and
  \<^verbatim>\<open>socket.leave(r)\<close> add the socket to and remove it from room \<open>r\<close>, for any
  name \<open>r\<close>; \<^verbatim>\<open>socket.emit\<close> delivers to the socket itself;
  \<^verbatim>\<open>io.to(r).emit\<close> delivers to every socket joined to \<open>r\<close>.
  \<^verbatim>\<open>socket.to(r).emit\<close> is a broadcast to room \<open>r\<close> with the room named by the
  sender's id as the excepted room: it delivers to every socket joined to \<open>r\<close> that
  is not joined to the room named by the sender's id, whether or not the sender is
  joined to \<open>r\<close>. Every socket joins the room named by its own id when it connects, so
  the excepted room holds the sender, and it holds any other socket that joined that
  name. A socket has left every room by the time its disconnect handler runs.
\<close>

definition socketJoin :: "server \<Rightarrow> sid \<Rightarrow> rid \<Rightarrow> server" where
  "socketJoin s c r = s\<lparr>adapterRooms := (adapterRooms s)(r := insert c (adapterRooms s r))\<rparr>"

definition socketLeave :: "server \<Rightarrow> sid \<Rightarrow> rid \<Rightarrow> server" where
  "socketLeave s c r = s\<lparr>adapterRooms := (adapterRooms s)(r := adapterRooms s r - {c})\<rparr>"

definition socketEmit :: "sid \<Rightarrow> event \<Rightarrow> emission" where
  "socketEmit c ev = ({c}, ev)"

definition socketTo :: "server \<Rightarrow> sid \<Rightarrow> rid \<Rightarrow> event \<Rightarrow> emission" where
  "socketTo s c r ev = (adapterRooms s r - adapterRooms s c, ev)"

definition ioTo :: "server \<Rightarrow> rid \<Rightarrow> event \<Rightarrow> emission" where
  "ioTo s r ev = (adapterRooms s r, ev)"

definition socketClose :: "server \<Rightarrow> sid \<Rightarrow> server" where
  "socketClose s c =
     s\<lparr>sockets := sockets s - {c}, adapterRooms := (\<lambda>r. adapterRooms s r - {c})\<rparr>"

text \<open>Whether socket \<open>c\<close> receives event \<open>ev\<close> from a list of emissions.\<close>

definition delivered :: "emission list \<Rightarrow> sid \<Rightarrow> event \<Rightarrow> bool" where
  "delivered out c ev = list_ex (\<lambda>e. snd e = ev \<and> c \<in> fst e) out"

text \<open>The sockets that receive anything at all.\<close>

definition recipients :: "emission list \<Rightarrow> sid set" where
  "recipients out = \<Union> (set (map fst out))"

text \<open>The occupant list of a room id: empty when the room does not exist.\<close>

definition occupants :: "server \<Rightarrow> rid \<Rightarrow> sid list" where
  "occupants s r = (case mapGet (rooms s) r of None \<Rightarrow> [] | Some rm \<Rightarrow> players rm)"

subsection \<open>Handlers\<close>

text \<open>\<^verbatim>\<open>io.on('connection')\<close>, lines 181-185.\<close>

definition connection :: "server \<Rightarrow> sid \<Rightarrow> server \<times> emission list" where
  "connection s c =
     (socketJoin (s\<lparr>sockets := insert c (sockets s)\<rparr>) c c, [socketEmit c RequestFingerprint])"

text \<open>\<^verbatim>\<open>socket.on('createRoom')\<close>, lines 218-237.\<close>

definition createRoom :: "server \<Rightarrow> sid \<Rightarrow> rid \<Rightarrow> server \<times> emission list" where
  "createRoom s c roomId =
     (if mapGet (rooms s) roomId \<noteq> None
      then (s, [socketEmit c (ErrorEv ''Room already exists'')])
      else (socketJoin
              (s\<lparr>rooms := mapSet roomId
                   \<lparr>players = [c], white = c, black = None, timeControl = None\<rparr> (rooms s)\<rparr>)
              c roomId,
            [socketEmit c (RoomCreated roomId)]))"

text \<open>
  \<^verbatim>\<open>socket.on('joinRoom')\<close>, lines 239-270. \<^verbatim>\<open>if (room.timeControl)\<close> is a truthiness
  test: \<^verbatim>\<open>null\<close> and the empty string do not pass it.
\<close>

definition joinRoom :: "server \<Rightarrow> sid \<Rightarrow> rid \<Rightarrow> server \<times> emission list" where
  "joinRoom s c roomId =
     (case mapGet (rooms s) roomId of
        None \<Rightarrow> (s, [socketEmit c (ErrorEv ''Room does not exist'')])
      | Some rm \<Rightarrow>
          if length (players rm) \<ge> 2
          then (s, [socketEmit c (ErrorEv ''Room is full'')])
          else
            (let rm' = rm\<lparr>players := players rm @ [c], black := Some c\<rparr>;
                 s' = socketJoin (s\<lparr>rooms := mapSet roomId rm' (rooms s)\<rparr>) c roomId
             in (s',
                 [socketEmit c (RoomJoined roomId)] @
                 (case timeControl rm' of
                    None \<Rightarrow> []
                  | Some tc \<Rightarrow> if tc = [] then [] else [socketEmit c (TimeControlSync tc)]) @
                 [socketTo s' c roomId OpponentJoined])))"

text \<open>The five relays, lines 272-293 and 303-319. None of them looks at \<^verbatim>\<open>rooms\<close>.\<close>

definition move :: "server \<Rightarrow> sid \<Rightarrow> rid \<Rightarrow> move_data \<Rightarrow> server \<times> emission list" where
  "move s c roomId d = (s, [socketTo s c roomId (OpponentMove d)])"

definition gameOver :: "server \<Rightarrow> sid \<Rightarrow> rid \<Rightarrow> json \<Rightarrow> server \<times> emission list" where
  "gameOver s c roomId reason = (s, [socketTo s c roomId (GameOverEv reason)])"

definition rematchRequest :: "server \<Rightarrow> sid \<Rightarrow> rid \<Rightarrow> server \<times> emission list" where
  "rematchRequest s c roomId = (s, [socketTo s c roomId RematchRequestEv])"

definition rematchAccept :: "server \<Rightarrow> sid \<Rightarrow> rid \<Rightarrow> server \<times> emission list" where
  "rematchAccept s c roomId = (s, [socketTo s c roomId RematchAccepted])"

definition rematchDecline :: "server \<Rightarrow> sid \<Rightarrow> rid \<Rightarrow> server \<times> emission list" where
  "rematchDecline s c roomId = (s, [socketTo s c roomId RematchDeclined])"

text \<open>\<^verbatim>\<open>socket.on('timeControlSet')\<close>, lines 295-301.\<close>

definition timeControlSet :: "server \<Rightarrow> sid \<Rightarrow> rid \<Rightarrow> string \<Rightarrow> server \<times> emission list" where
  "timeControlSet s c roomId tc =
     (case mapGet (rooms s) roomId of
        None \<Rightarrow> (s, [])
      | Some rm \<Rightarrow> (s\<lparr>rooms := mapSet roomId (rm\<lparr>timeControl := Some tc\<rparr>) (rooms s)\<rparr>, []))"

subsection \<open>Matchmaking\<close>

text \<open>
  The scan of lines 326-341, from index \<open>i\<close>: the value of \<^verbatim>\<open>matchedIndex\<close> when the
  loop is left, -1 when no entry from \<open>i\<close> on passes the test.
\<close>

function matchLoop :: "queue_entry list \<Rightarrow> string \<Rightarrow> bool \<Rightarrow> nat \<Rightarrow> int" where
  "matchLoop q tc ig i =
     (if i < length q then
        (let waiting = q ! i;
             sameTime = (entryTimeControl waiting = tc);
             eitherIgnores = (ignoreTime waiting \<or> ig)
         in if sameTime \<or> eitherIgnores then int i else matchLoop q tc ig (i + 1))
      else -1)"
  by pat_completeness auto
termination
  by (relation "measure (\<lambda>(q, tc, ig, i). length q - i)") auto

declare matchLoop.simps [simp del]

text \<open>Lines 352-364.\<close>

definition finalTimeControl :: "queue_entry \<Rightarrow> string \<Rightarrow> bool \<Rightarrow> string" where
  "finalTimeControl opponent tc ig =
     (if entryTimeControl opponent = tc then tc
      else if \<not> ignoreTime opponent \<and> ig then entryTimeControl opponent
      else if ignoreTime opponent \<and> \<not> ig then tc
      else entryTimeControl opponent)"

text \<open>
  Line 367: \<^verbatim>\<open>crypto.randomBytes(3).toString('hex').toUpperCase()\<close>. The three random
  bytes are an input of the handler.
\<close>

definition hexDigit :: "nat \<Rightarrow> char" where
  "hexDigit n = ''0123456789ABCDEF'' ! (n mod 16)"

definition hexByte :: "u8 \<Rightarrow> string" where
  "hexByte b = [hexDigit (unat b div 16), hexDigit (unat b mod 16)]"

definition generateRoomId :: "u8 \<times> u8 \<times> u8 \<Rightarrow> rid" where
  "generateRoomId rnd = (case rnd of (b0, b1, b2) \<Rightarrow> hexByte b0 @ hexByte b1 @ hexByte b2)"

text \<open>
  \<^verbatim>\<open>socket.on('findMatch')\<close>, lines 321-392. The opponent's socket joins the new room
  only if it is still connected (the optional chaining of line 378).
\<close>

definition findMatch ::
  "server \<Rightarrow> sid \<Rightarrow> string \<Rightarrow> bool \<Rightarrow> u8 \<times> u8 \<times> u8 \<Rightarrow> server \<times> emission list" where
  "findMatch s c tc ig rnd =
     (let q = matchmakingQueue s;
          matchedIndex = matchLoop q tc ig 0
      in if matchedIndex \<noteq> -1 then
           (let opponent = q ! nat matchedIndex;
                fin = finalTimeControl opponent tc ig;
                roomId = generateRoomId rnd;
                s1 = s\<lparr>matchmakingQueue := splice1 q (nat matchedIndex),
                       rooms := mapSet roomId
                         \<lparr>players = [socketId opponent, c], white = socketId opponent,
                          black = Some c, timeControl = Some fin\<rparr> (rooms s)\<rparr>;
                s2 = (if socketId opponent \<in> sockets s1
                      then socketJoin s1 (socketId opponent) roomId else s1);
                s3 = socketJoin s2 c roomId
            in (s3, [ioTo s3 (socketId opponent) (MatchFound roomId ''white'' fin),
                     socketEmit c (MatchFound roomId ''black'' fin)]))
         else
           (s\<lparr>matchmakingQueue :=
                q @ [\<lparr>socketId = c, entryTimeControl = tc, ignoreTime = ig\<rparr>]\<rparr>,
            [socketEmit c Searching]))"

text \<open>\<^verbatim>\<open>socket.on('cancelMatchmaking')\<close>, lines 394-401.\<close>

definition cancelMatchmaking :: "server \<Rightarrow> sid \<Rightarrow> server \<times> emission list" where
  "cancelMatchmaking s c =
     (let index = findIndex (\<lambda>p. socketId p = c) (matchmakingQueue s)
      in if index > -1
         then (s\<lparr>matchmakingQueue := splice1 (matchmakingQueue s) (nat index)\<rparr>, [])
         else (s, []))"

subsection \<open>Leaving and disconnecting\<close>

text \<open>\<^verbatim>\<open>socket.on('leaveRoom')\<close>, lines 403-421.\<close>

definition leaveRoom :: "server \<Rightarrow> sid \<Rightarrow> rid \<Rightarrow> server \<times> emission list" where
  "leaveRoom s c roomId =
     (case mapGet (rooms s) roomId of
        None \<Rightarrow> (socketLeave s c roomId, [])
      | Some rm \<Rightarrow>
          (let ps = filter (\<lambda>i. i \<noteq> c) (players rm)
           in if length ps = 0
              then (socketLeave (s\<lparr>rooms := mapDelete roomId (rooms s)\<rparr>) c roomId, [])
              else (socketLeave (s\<lparr>rooms := mapSet roomId (rm\<lparr>players := ps\<rparr>) (rooms s)\<rparr>)
                      c roomId,
                    [socketTo s c roomId OpponentDisconnected])))"

text \<open>
  The \<^verbatim>\<open>rooms.forEach\<close> of lines 444-456 over the entries in insertion order; \<open>mem\<close>
  is the Socket.IO membership that \<^verbatim>\<open>io.to(roomId)\<close> reads. Deleting the entry being
  visited does not disturb the iteration over the later entries.
\<close>

fun cleanRooms ::
  "sid \<Rightarrow> (rid \<Rightarrow> sid set) \<Rightarrow> (rid \<times> room) list \<Rightarrow> (rid \<times> room) list \<times> emission list" where
  "cleanRooms c mem [] = ([], [])"
| "cleanRooms c mem ((roomId, rm) # rest) =
     (let (rest', out) = cleanRooms c mem rest
      in if c \<in> set (players rm) then
           (let ps = filter (\<lambda>i. i \<noteq> c) (players rm)
            in if length ps = 0 then (rest', out)
               else ((roomId, rm\<lparr>players := ps\<rparr>) # rest',
                     (mem roomId, OpponentDisconnected) # out))
         else ((roomId, rm) # rest', out))"

text \<open>
  \<^verbatim>\<open>socket.on('disconnect')\<close>, lines 423-457, run on the state Socket.IO leaves behind
  when the socket has closed: first the queue (lines 427-431), then the rooms. The
  handler awaits \<^verbatim>\<open>removeSession\<close> between the two parts; both parts are taken as
  one transition here, as they are when no database is connected and the awaited call
  returns at once.
\<close>

definition disconnect :: "server \<Rightarrow> sid \<Rightarrow> server \<times> emission list" where
  "disconnect s c =
     (let s0 = socketClose s c;
          queueIndex = findIndex (\<lambda>p. socketId p = c) (matchmakingQueue s0);
          s1 = (if queueIndex > -1
                then s0\<lparr>matchmakingQueue := splice1 (matchmakingQueue s0) (nat queueIndex)\<rparr>
                else s0);
          (rs, out) = cleanRooms c (adapterRooms s1) (rooms s1)
      in (s1\<lparr>rooms := rs\<rparr>, out))"

subsection \<open>Sequences of inbound signals\<close>

datatype signal =
    Connection
  | CreateRoom rid
  | JoinRoom rid
  | Move rid move_data
  | GameOver rid json
  | TimeControlSet rid string
  | RematchRequest rid
  | RematchAccept rid
  | RematchDecline rid
  | FindMatch string bool "u8 \<times> u8 \<times> u8"
  | CancelMatchmaking
  | LeaveRoom rid
  | Disconnect

fun handle :: "server \<Rightarrow> sid \<times> signal \<Rightarrow> server \<times> emission list" where
  "handle s (c, Connection) = connection s c"
| "handle s (c, CreateRoom r) = createRoom s c r"
| "handle s (c, JoinRoom r) = joinRoom s c r"
| "handle s (c, Move r d) = move s c r d"
| "handle s (c, GameOver r x) = gameOver s c r x"
| "handle s (c, TimeControlSet r tc) = timeControlSet s c r tc"
| "handle s (c, RematchRequest r) = rematchRequest s c r"
| "handle s (c, RematchAccept r) = rematchAccept s c r"
| "handle s (c, RematchDecline r) = rematchDecline s c r"
| "handle s (c, FindMatch tc ig rnd) = findMatch s c tc ig rnd"
| "handle s (c, CancelMatchmaking) = cancelMatchmaking s c"
| "handle s (c, LeaveRoom r) = leaveRoom s c r"
| "handle s (c, Disconnect) = disconnect s c"

text \<open>The state after a sequence of signals, each handled to completion in turn.\<close>

fun run :: "server \<Rightarrow> (sid \<times> signal) list \<Rightarrow> server" where
  "run s [] = s"
| "run s (e # es) = run (fst (handle s e)) es"

subsection \<open>Predicates and states used in the statements\<close>

text \<open>
  The compatibility predicate in the words of the specification (section 4.2), for a
  waiting entry and the time control and ignore flag of a request.
\<close>

definition compatible :: "queue_entry \<Rightarrow> string \<Rightarrow> bool \<Rightarrow> bool" where
  "compatible e tc ig = (entryTimeControl e = tc \<or> ignoreTime e \<or> ig)"

text \<open>Every entry of \<open>rooms\<close> holds at most two occupants.\<close>

definition roomsBounded :: "server \<Rightarrow> bool" where
  "roomsBounded s = list_all (\<lambda>p. length (players (snd p)) \<le> 2) (rooms s)"

text \<open>
  A state with one full room: A creates room ABC123, B joins it, C is connected and in no
  room.
\<close>

definition fullRoomState :: server where
  "fullRoomState = run initial
     [(''A'', Connection), (''A'', CreateRoom ''ABC123''),
      (''B'', Connection), (''B'', JoinRoom ''ABC123''), (''C'', Connection)]"

text \<open>
  X waits with 3+0 and A with 5+0, neither ignoring time, so the second request did not
  match the first; B is connected.
\<close>

definition twoWaiting :: server where
  "twoWaiting = run initial
     [(''X'', Connection), (''X'', FindMatch ''3+0'' False (0, 0, 0)),
      (''A'', Connection), (''A'', FindMatch ''5+0'' False (0, 0, 0)),
      (''B'', Connection)]"

text \<open>A alone waits in the queue with the given request; B is connected.\<close>

definition oneWaiting :: "string \<Rightarrow> bool \<Rightarrow> server" where
  "oneWaiting tc ig = run initial
     [(''A'', Connection), (''A'', FindMatch tc ig (0, 0, 0)), (''B'', Connection)]"

text \<open>
  A state in which room ABC123, created by X, is live and A waits in the queue.
\<close>

definition collisionState :: server where
  "collisionState = run initial
     [(''X'', Connection), (''X'', CreateRoom ''ABC123''),
      (''A'', Connection), (''A'', FindMatch ''5+0'' False (0, 0, 0)),
      (''B'', Connection)]"

text \<open>No two queue entries carry the same connection id.\<close>

definition queueDistinct :: "server \<Rightarrow> bool" where
  "queueDistinct s = distinct (map socketId (matchmakingQueue s))"

text \<open>The number of queue entries that carry connection id \<open>c\<close>.\<close>

definition entriesOf :: "server \<Rightarrow> sid \<Rightarrow> nat" where
  "entriesOf s c = length (filter (\<lambda>p. socketId p = c) (matchmakingQueue s))"

text \<open>Connection \<open>c\<close> is in the occupant list of no room.\<close>

definition inNoRoom :: "server \<Rightarrow> sid \<Rightarrow> bool" where
  "inNoRoom s c = list_all (\<lambda>p. c \<notin> set (players (snd p))) (rooms s)"

text \<open>No emission of the list is the \<^verbatim>\<open>error\<close> event.\<close>

fun isError :: "event \<Rightarrow> bool" where
  "isError (ErrorEv m) = True"
| "isError ev = False"

definition noError :: "emission list \<Rightarrow> bool" where
  "noError out = list_all (\<lambda>e. \<not> isError (snd e)) out"

text \<open>A state in which C is connected and holds nothing.\<close>

definition freshC :: server where
  "freshC = run initial [(''C'', Connection)]"

text \<open>A move payload for the concrete runs.\<close>

definition sampleMove :: move_data where
  "sampleMove = \<lparr>move_from = ''e2'', move_to = ''e4'', moveType = ''normal'',
     whiteTime = ''300'', blackTime = ''300'', timestamp = ''1''\<rparr>"

text \<open>
  A room with an occupant whose connection is gone: A asks for a match twice with
  different time controls and disconnects, which removes only the first of its two
  entries; B is then matched with the entry left behind.
\<close>

definition staleState :: server where
  "staleState = run initial
     [(''A'', Connection), (''A'', FindMatch ''5+0'' False (0, 0, 0)),
      (''A'', FindMatch ''3+0'' False (0, 0, 0)), (''A'', Disconnect),
      (''B'', Connection), (''B'', FindMatch ''3+0'' False (0xAB, 0xC1, 0x23))]"

text \<open>
  A asks for a match twice with different time controls, neither request ignoring time.
\<close>

definition duplicateState :: server where
  "duplicateState = run initial
     [(''A'', Connection), (''A'', FindMatch ''5+0'' False (0, 0, 0)),
      (''A'', FindMatch ''3+0'' False (0, 0, 0))]"

text \<open>
  A and B occupy room ABC123, and B has also created a room whose id is the socket id of
  A, which joins B to the Socket.IO room of that name.
\<close>

definition exceptState :: server where
  "exceptState = run initial
     [(''A'', Connection), (''A'', CreateRoom ''ABC123''),
      (''B'', Connection), (''B'', JoinRoom ''ABC123''), (''B'', CreateRoom ''A'')]"

section \<open>Basic facts\<close>

lemmas handler_defs =
  connection_def createRoom_def joinRoom_def move_def gameOver_def rematchRequest_def
  rematchAccept_def rematchDecline_def timeControlSet_def findMatch_def
  cancelMatchmaking_def leaveRoom_def disconnect_def socketJoin_def socketLeave_def
  socketClose_def socketEmit_def socketTo_def ioTo_def mapGet_def mapDelete_def
  splice1_def Let_def

lemma mapGet_mapSet: "mapGet (mapSet k v m) k' = (if k' = k then Some v else mapGet m k')"
  by (induction m) (auto simp: mapGet_def)

lemma mapGet_mapDelete: "mapGet (mapDelete k m) k' = (if k' = k then None else mapGet m k')"
  by (induction m) (auto simp: mapGet_def mapDelete_def)

lemma set_mapSet: "set (mapSet k v m) \<subseteq> insert (k, v) (set m)"
  by (induction m) auto

lemma set_mapDelete: "set (mapDelete k m) \<subseteq> set m"
  by (auto simp: mapDelete_def)

lemma mapGet_in_set: "mapGet m k = Some v \<Longrightarrow> (k, v) \<in> set m"
  by (simp add: mapGet_def map_of_SomeD)

lemma roomsBounded_occupants: "roomsBounded s \<Longrightarrow> length (occupants s r) \<le> 2"
  by (auto simp: roomsBounded_def occupants_def list_all_iff split: option.splits dest!: mapGet_in_set)

lemma cleanRooms_entries:
  "p \<in> set (fst (cleanRooms c mem m)) \<Longrightarrow>
   \<exists>rm. (fst p, rm) \<in> set m \<and> players (snd p) = filter (\<lambda>i. i \<noteq> c) (players rm)"
proof (induction m arbitrary: p)
  case Nil
  then show ?case by simp
next
  case (Cons a m)
  obtain r rm where a: "a = (r, rm)" by (cases a)
  obtain rest out where co: "cleanRooms c mem m = (rest, out)" by (cases "cleanRooms c mem m")
  show ?case
  proof (cases "p \<in> set rest")
    case True
    with Cons.IH [of p] co show ?thesis by auto
  next
    case False
    with Cons.prems a co have "c \<in> set (players rm) \<and> p = (r, rm\<lparr>players := filter (\<lambda>i. i \<noteq> c) (players rm)\<rparr>) \<or> c \<notin> set (players rm) \<and> p = (r, rm)"
      by (auto split: if_splits simp: Let_def)
    then show ?thesis
    proof
      assume "c \<in> set (players rm) \<and> p = (r, rm\<lparr>players := filter (\<lambda>i. i \<noteq> c) (players rm)\<rparr>)"
      then show ?thesis using a by auto
    next
      assume h: "c \<notin> set (players rm) \<and> p = (r, rm)"
      then have "filter (\<lambda>i. i \<noteq> c) (players rm) = players rm" by (auto simp: filter_id_conv)
      with h a show ?thesis by auto
    qed
  qed
qed

lemma list_all_mapSet: "list_all P m \<Longrightarrow> P (k, v) \<Longrightarrow> list_all P (mapSet k v m)"
  by (induction m) auto

lemma list_all_mapDelete: "list_all P m \<Longrightarrow> list_all P (mapDelete k m)"
  by (simp add: mapDelete_def list_all_iff)

lemma roomsBounded_get:
  "roomsBounded s \<Longrightarrow> mapGet (rooms s) r = Some rm \<Longrightarrow> length (players rm) \<le> 2"
  by (auto simp: roomsBounded_def list_all_iff dest!: mapGet_in_set)

lemma roomsBounded_set:
  "roomsBounded s \<Longrightarrow> length (players rm) \<le> 2 \<Longrightarrow>
   roomsBounded (s\<lparr>rooms := mapSet r rm (rooms s)\<rparr>)"
  by (simp add: roomsBounded_def list_all_mapSet)

lemma roomsBounded_adapter [simp]:
  "roomsBounded (socketJoin s c r) = roomsBounded s"
  "roomsBounded (socketLeave s c r) = roomsBounded s"
  "roomsBounded (socketClose s c) = roomsBounded s"
  "roomsBounded (s\<lparr>matchmakingQueue := q\<rparr>) = roomsBounded s"
  by (simp_all add: roomsBounded_def socketJoin_def socketLeave_def socketClose_def)

lemma rooms_disconnect:
  "rooms (fst (disconnect s c)) = fst (cleanRooms c (\<lambda>r. adapterRooms s r - {c}) (rooms s))"
  by (simp add: disconnect_def socketClose_def Let_def split: prod.splits)

lemma queue_disconnect:
  "matchmakingQueue (fst (disconnect s c)) =
     (let i = findIndex (\<lambda>p. socketId p = c) (matchmakingQueue s)
      in if i > -1 then splice1 (matchmakingQueue s) (nat i) else matchmakingQueue s)"
  by (simp add: disconnect_def socketClose_def Let_def split: prod.splits)

lemma roomsBounded_handle: "roomsBounded s \<Longrightarrow> roomsBounded (fst (handle s e))"
proof -
  assume b: "roomsBounded s"
  obtain c sg where e: "e = (c, sg)" by (cases e)
  have le: "length (filter P xs) \<le> 2" if "length xs \<le> 2" for P and xs :: "sid list"
    using that length_filter_le [of P xs] by linarith
  show ?thesis
  proof (cases sg)
    case Connection
    with b e show ?thesis by (simp add: connection_def socketJoin_def roomsBounded_def)
  next
    case (CreateRoom r)
    with b e show ?thesis
      by (simp add: createRoom_def roomsBounded_set)
  next
    case (JoinRoom r)
    with b e show ?thesis
      by (auto simp: joinRoom_def Let_def roomsBounded_set split: option.splits)
  next
    case (TimeControlSet r tc)
    with b e show ?thesis
      by (auto simp: timeControlSet_def split: option.splits
               intro!: roomsBounded_set dest: roomsBounded_get)
  next
    case (FindMatch tc ig rnd)
    have "roomsBounded (s\<lparr>matchmakingQueue := q, rooms := mapSet k rm (rooms s)\<rparr>)"
      if "length (players rm) \<le> 2" for q k rm
      using b that by (simp add: roomsBounded_def list_all_mapSet)
    with b e FindMatch show ?thesis
      by (simp add: findMatch_def Let_def)
  next
    case CancelMatchmaking
    with b e show ?thesis by (simp add: cancelMatchmaking_def Let_def)
  next
    case (LeaveRoom r)
    have "roomsBounded (s\<lparr>rooms := mapDelete r (rooms s)\<rparr>)"
      using b by (simp add: roomsBounded_def list_all_mapDelete)
    with b e LeaveRoom show ?thesis
      by (auto simp: leaveRoom_def Let_def split: option.splits
               intro!: roomsBounded_set le dest: roomsBounded_get)
  next
    case Disconnect
    have "length (players (snd p)) \<le> 2" if "p \<in> set (fst (cleanRooms c mem (rooms s)))" for p mem
      using cleanRooms_entries [OF that] b le
      by (fastforce simp: roomsBounded_def list_all_iff)
    with e Disconnect show ?thesis
      by (simp add: roomsBounded_def rooms_disconnect list_all_iff)
  qed (use b e in \<open>simp_all add: move_def gameOver_def rematchRequest_def rematchAccept_def
         rematchDecline_def\<close>)
qed

lemma roomsBounded_run: "roomsBounded s \<Longrightarrow> roomsBounded (run s es)"
  by (induction es arbitrary: s) (auto simp: roomsBounded_handle)

lemma roomsBounded_initial: "roomsBounded initial"
  by (simp add: roomsBounded_def initial_def)

subsection \<open>The scan of the queue\<close>

lemma matchLoop_unfold:
  "matchLoop q tc ig i =
     (if i < length q
      then (if compatible (q ! i) tc ig then int i else matchLoop q tc ig (i + 1))
      else -1)"
  by (subst matchLoop.simps) (simp add: compatible_def Let_def)

lemma matchLoop_miss:
  "(matchLoop q tc ig i = -1) = (\<forall>k. i \<le> k \<and> k < length q \<longrightarrow> \<not> compatible (q ! k) tc ig)"
proof (induction q tc ig i rule: matchLoop.induct)
  case (1 q tc ig i)
  show ?case
  proof (cases "i < length q")
    case False
    then show ?thesis using matchLoop_unfold [of q tc ig i] by auto
  next
    case True
    show ?thesis
    proof (cases "compatible (q ! i) tc ig")
      case True
      with \<open>i < length q\<close> have "matchLoop q tc ig i = int i"
        using matchLoop_unfold [of q tc ig i] by simp
      moreover have "int i \<noteq> -1" by simp
      ultimately show ?thesis using True \<open>i < length q\<close> by auto
    next
      case False
      with \<open>i < length q\<close> have step: "matchLoop q tc ig i = matchLoop q tc ig (i + 1)"
        using matchLoop_unfold [of q tc ig i] by simp
      from False \<open>i < length q\<close> have ih:
        "(matchLoop q tc ig (i + 1) = -1) =
           (\<forall>k. i + 1 \<le> k \<and> k < length q \<longrightarrow> \<not> compatible (q ! k) tc ig)"
        by (intro "1.IH") (auto simp: compatible_def)
      have "(\<forall>k. i \<le> k \<and> k < length q \<longrightarrow> \<not> compatible (q ! k) tc ig) =
            (\<forall>k. i + 1 \<le> k \<and> k < length q \<longrightarrow> \<not> compatible (q ! k) tc ig)"
      proof
        assume "\<forall>k. i \<le> k \<and> k < length q \<longrightarrow> \<not> compatible (q ! k) tc ig"
        then show "\<forall>k. i + 1 \<le> k \<and> k < length q \<longrightarrow> \<not> compatible (q ! k) tc ig" by simp
      next
        assume a: "\<forall>k. i + 1 \<le> k \<and> k < length q \<longrightarrow> \<not> compatible (q ! k) tc ig"
        show "\<forall>k. i \<le> k \<and> k < length q \<longrightarrow> \<not> compatible (q ! k) tc ig"
        proof (intro allI impI)
          fix k assume "i \<le> k \<and> k < length q"
          then have "k = i \<or> (i + 1 \<le> k \<and> k < length q)" by arith
          with a False show "\<not> compatible (q ! k) tc ig" by blast
        qed
      qed
      with step ih show ?thesis by simp
    qed
  qed
qed

lemma matchLoop_first:
  "i \<le> j \<Longrightarrow> j < length q \<Longrightarrow> compatible (q ! j) tc ig \<Longrightarrow>
   (\<forall>k. i \<le> k \<and> k < j \<longrightarrow> \<not> compatible (q ! k) tc ig) \<Longrightarrow>
   matchLoop q tc ig i = int j"
proof (induction q tc ig i rule: matchLoop.induct)
  case (1 q tc ig i)
  show ?case
  proof (cases "i = j")
    case True
    with "1.prems" show ?thesis
      using matchLoop_unfold [of q tc ig i] by simp
  next
    case False
    with "1.prems" have lt: "i < j" and inc: "\<not> compatible (q ! i) tc ig" by auto
    with "1.prems" have step: "matchLoop q tc ig i = matchLoop q tc ig (i + 1)"
      using matchLoop_unfold [of q tc ig i] by simp
    have "matchLoop q tc ig (i + 1) = int j"
    proof (rule "1.IH")
      show "i < length q" using lt "1.prems" by simp
      show "\<not> (entryTimeControl (q ! i) = tc \<or> (ignoreTime (q ! i) \<or> ig))"
        using inc by (simp add: compatible_def)
      show "i + 1 \<le> j" using lt by simp
      show "j < length q" by fact
      show "compatible (q ! j) tc ig" by fact
      show "\<forall>k. i + 1 \<le> k \<and> k < j \<longrightarrow> \<not> compatible (q ! k) tc ig"
        using "1.prems" by simp
    qed simp_all
    with step show ?thesis by simp
  qed
qed

lemma matchLoop_hit:
  assumes "matchLoop q tc ig i \<noteq> -1"
  shows "\<exists>j. matchLoop q tc ig i = int j \<and> i \<le> j \<and> j < length q \<and> compatible (q ! j) tc ig \<and>
             (\<forall>k. i \<le> k \<and> k < j \<longrightarrow> \<not> compatible (q ! k) tc ig)"
proof -
  from assms have ex: "\<exists>k. i \<le> k \<and> k < length q \<and> compatible (q ! k) tc ig"
    by (auto simp: matchLoop_miss)
  define j where "j = (LEAST k. i \<le> k \<and> k < length q \<and> compatible (q ! k) tc ig)"
  from ex have j: "i \<le> j \<and> j < length q \<and> compatible (q ! j) tc ig"
    unfolding j_def by (rule LeastI_ex)
  have min: "\<not> compatible (q ! k) tc ig" if "i \<le> k" "k < j" for k
  proof
    assume "compatible (q ! k) tc ig"
    with that j have "i \<le> k \<and> k < length q \<and> compatible (q ! k) tc ig" by simp
    then have "j \<le> k" unfolding j_def by (rule Least_le)
    with that show False by simp
  qed
  with j have "matchLoop q tc ig i = int j" by (intro matchLoop_first) auto
  with j min show ?thesis by blast
qed

subsection \<open>Concrete states\<close>

lemma fullRoomState_rooms:
  "rooms fullRoomState =
     [(''ABC123'', \<lparr>players = [''A'', ''B''], white = ''A'', black = Some ''B'', timeControl = None\<rparr>)]"
  by (simp add: fullRoomState_def initial_def handler_defs)

section \<open>Creating a room\<close>

text \<open>
  C8. createRoom on an id that is live fails with the error ``Room already exists'',
  delivered to the caller alone, and returns the state as it was: occupant list, roles
  and time control of the existing room are unchanged. In particular the second of two
  createRoom calls with the same id fails in this way, whoever made the first.
\<close>

theorem createRoom_twice:
  "(mapGet (rooms s) roomId \<noteq> None \<longrightarrow>
      createRoom s b roomId = (s, [({b}, ErrorEv ''Room already exists'')])) \<and>
   createRoom (fst (createRoom s a roomId)) b roomId =
     (fst (createRoom s a roomId), [({b}, ErrorEv ''Room already exists'')])"
proof -
  have live: "mapGet (rooms (fst (createRoom s a roomId))) roomId \<noteq> None"
    by (simp add: createRoom_def socketJoin_def mapGet_mapSet)
  have fails: "createRoom t b roomId = (t, [({b}, ErrorEv ''Room already exists'')])"
    if "mapGet (rooms t) roomId \<noteq> None" for t
    using that by (simp add: createRoom_def socketEmit_def)
  from fails [of s] fails [OF live] show ?thesis by blast
qed

theorem createRoom_twice_witness:
  "mapGet (rooms (fst (createRoom initial ''A'' ''ABC123''))) ''ABC123'' \<noteq> None \<and>
   createRoom (fst (createRoom initial ''A'' ''ABC123'')) ''B'' ''ABC123'' =
     (fst (createRoom initial ''A'' ''ABC123''), [({''B''}, ErrorEv ''Room already exists'')]) \<and>
   occupants (fst (createRoom (fst (createRoom initial ''A'' ''ABC123'')) ''B'' ''ABC123'')) ''ABC123'' = [''A'']"
  using createRoom_twice [of "fst (createRoom initial ''A'' ''ABC123'')" "''ABC123''" "''B''" "''A''"]
  by (simp add: createRoom_def initial_def mapGet_def socketJoin_def occupants_def)

section \<open>Joining a room\<close>

text \<open>
  C7. joinRoom fails with the room-not-found error when no room with the given id exists
  and with the room-full error when the room already holds two occupants. A failed call
  returns the state as it was, so the occupant list is unchanged, and the error goes to
  the caller alone. No room ever holds a third occupant: joinRoom keeps every occupant
  list at two or fewer, and so does every state reached from the initial one by any
  sequence of signals.
\<close>

theorem joinRoom_errors:
  "(mapGet (rooms s) r1 = None \<longrightarrow>
      joinRoom s c r1 = (s, [({c}, ErrorEv ''Room does not exist'')])) \<and>
   (mapGet (rooms s) r2 = Some rm \<and> length (players rm) \<ge> 2 \<longrightarrow>
      joinRoom s c r2 = (s, [({c}, ErrorEv ''Room is full'')])) \<and>
   (roomsBounded s \<longrightarrow> roomsBounded (fst (joinRoom s c r3))) \<and>
   length (occupants (run initial es) r) \<le> 2"
proof -
  have "roomsBounded s \<Longrightarrow> roomsBounded (fst (joinRoom s c r3))"
    using roomsBounded_handle [of s "(c, JoinRoom r3)"] by simp
  moreover have "length (occupants (run initial es) r) \<le> 2"
    by (rule roomsBounded_occupants [OF roomsBounded_run [OF roomsBounded_initial]])
  ultimately show ?thesis
    by (auto simp: joinRoom_def socketEmit_def)
qed

theorem joinRoom_errors_witness:
  "mapGet (rooms fullRoomState) ''XYZ789'' = None \<and>
   joinRoom fullRoomState ''C'' ''XYZ789'' =
     (fullRoomState, [({''C''}, ErrorEv ''Room does not exist'')]) \<and>
   mapGet (rooms fullRoomState) ''ABC123'' =
     Some \<lparr>players = [''A'', ''B''], white = ''A'', black = Some ''B'', timeControl = None\<rparr> \<and>
   joinRoom fullRoomState ''C'' ''ABC123'' =
     (fullRoomState, [({''C''}, ErrorEv ''Room is full'')]) \<and>
   roomsBounded fullRoomState \<and>
   roomsBounded (fst (joinRoom fullRoomState ''C'' ''ABC123''))"
  using joinRoom_errors [of fullRoomState "''XYZ789''" "''C''" "''ABC123''"
      "\<lparr>players = [''A'', ''B''], white = ''A'', black = Some ''B'', timeControl = None\<rparr>"
      "''ABC123''"]
  by (simp add: fullRoomState_rooms mapGet_def roomsBounded_def)

lemma generateRoomId_ABC123: "generateRoomId (0xAB, 0xC1, 0x23) = ''ABC123''"
  by (simp add: generateRoomId_def hexByte_def hexDigit_def)

lemma twoWaiting_queue:
  "matchmakingQueue twoWaiting =
     [\<lparr>socketId = ''X'', entryTimeControl = ''3+0'', ignoreTime = False\<rparr>,
      \<lparr>socketId = ''A'', entryTimeControl = ''5+0'', ignoreTime = False\<rparr>]"
  by (simp add: twoWaiting_def initial_def handler_defs matchLoop.simps)

lemma oneWaiting_queue:
  "matchmakingQueue (oneWaiting tc ig) =
     [\<lparr>socketId = ''A'', entryTimeControl = tc, ignoreTime = ig\<rparr>]"
  by (simp add: oneWaiting_def initial_def handler_defs matchLoop.simps)

section \<open>Matchmaking\<close>

lemma findMatch_hit:
  assumes "matchLoop (matchmakingQueue s) tc ig 0 = int i"
  shows "findMatch s c tc ig rnd =
     (let opponent = matchmakingQueue s ! i;
          fin = finalTimeControl opponent tc ig;
          roomId = generateRoomId rnd;
          s1 = s\<lparr>matchmakingQueue := splice1 (matchmakingQueue s) i,
                 rooms := mapSet roomId
                   \<lparr>players = [socketId opponent, c], white = socketId opponent,
                    black = Some c, timeControl = Some fin\<rparr> (rooms s)\<rparr>;
          s2 = (if socketId opponent \<in> sockets s1
                then socketJoin s1 (socketId opponent) roomId else s1);
          s3 = socketJoin s2 c roomId
      in (s3, [ioTo s3 (socketId opponent) (MatchFound roomId ''white'' fin),
               socketEmit c (MatchFound roomId ''black'' fin)]))"
proof -
  have "int i \<noteq> -1" by simp
  with assms show ?thesis
    unfolding findMatch_def by (simp add: Let_def)
qed

lemma findMatch_miss:
  assumes "matchLoop (matchmakingQueue s) tc ig 0 = -1"
  shows "findMatch s c tc ig rnd =
     (s\<lparr>matchmakingQueue :=
          matchmakingQueue s @ [\<lparr>socketId = c, entryTimeControl = tc, ignoreTime = ig\<rparr>]\<rparr>,
      [({c}, Searching)])"
  using assms unfolding findMatch_def by (simp add: Let_def socketEmit_def)

lemma findMatch_hit_queue:
  "matchLoop (matchmakingQueue s) tc ig 0 = int i \<Longrightarrow>
   matchmakingQueue (fst (findMatch s c tc ig rnd)) = splice1 (matchmakingQueue s) i"
  using findMatch_hit [of s tc ig i c rnd] by (simp add: Let_def socketJoin_def)

lemma findMatch_hit_room:
  "matchLoop (matchmakingQueue s) tc ig 0 = int i \<Longrightarrow>
   mapGet (rooms (fst (findMatch s c tc ig rnd))) (generateRoomId rnd) =
     Some \<lparr>players = [socketId (matchmakingQueue s ! i), c],
           white = socketId (matchmakingQueue s ! i), black = Some c,
           timeControl = Some (finalTimeControl (matchmakingQueue s ! i) tc ig)\<rparr>"
  using findMatch_hit [of s tc ig i c rnd] by (simp add: Let_def socketJoin_def mapGet_mapSet)

lemma findMatch_hit_out:
  "matchLoop (matchmakingQueue s) tc ig 0 = int i \<Longrightarrow>
   map snd (snd (findMatch s c tc ig rnd)) =
     [MatchFound (generateRoomId rnd) ''white'' (finalTimeControl (matchmakingQueue s ! i) tc ig),
      MatchFound (generateRoomId rnd) ''black'' (finalTimeControl (matchmakingQueue s ! i) tc ig)]"
  using findMatch_hit [of s tc ig i c rnd] by (simp add: Let_def ioTo_def socketEmit_def)

text \<open>
  C3. findMatch scans the queue from the front, in the order the entries were appended,
  and takes the first entry that is compatible with the request: when entry \<open>i\<close> is
  compatible and no entry before it is, entry \<open>i\<close> is the one removed from the queue
  and becomes the first occupant of the new room, whatever follows it. When no entry is
  compatible, an entry for the requester is appended at the back of the queue, nothing
  else changes, and the requester alone is sent ``searching''.
\<close>

theorem findMatch_first_fit:
  "(i < length (matchmakingQueue s) \<and> compatible (matchmakingQueue s ! i) tc ig \<and>
    (\<forall>j. j < i \<longrightarrow> \<not> compatible (matchmakingQueue s ! j) tc ig) \<longrightarrow>
      matchmakingQueue (fst (findMatch s c tc ig rnd)) =
        take i (matchmakingQueue s) @ drop (Suc i) (matchmakingQueue s) \<and>
      occupants (fst (findMatch s c tc ig rnd)) (generateRoomId rnd) =
        [socketId (matchmakingQueue s ! i), c]) \<and>
   ((\<forall>e \<in> set (matchmakingQueue s'). \<not> compatible e tc' ig') \<longrightarrow>
      findMatch s' c' tc' ig' rnd' =
        (s'\<lparr>matchmakingQueue := matchmakingQueue s' @
              [\<lparr>socketId = c', entryTimeControl = tc', ignoreTime = ig'\<rparr>]\<rparr>,
         [({c'}, Searching)]))"
proof (intro conjI impI)
  assume a: "i < length (matchmakingQueue s) \<and> compatible (matchmakingQueue s ! i) tc ig \<and>
    (\<forall>j. j < i \<longrightarrow> \<not> compatible (matchmakingQueue s ! j) tc ig)"
  then have m: "matchLoop (matchmakingQueue s) tc ig 0 = int i"
    using matchLoop_first [of 0 i "matchmakingQueue s" tc ig] by simp
  show "matchmakingQueue (fst (findMatch s c tc ig rnd)) =
        take i (matchmakingQueue s) @ drop (Suc i) (matchmakingQueue s)"
    using findMatch_hit_queue [OF m] by (simp add: splice1_def)
  show "occupants (fst (findMatch s c tc ig rnd)) (generateRoomId rnd) =
        [socketId (matchmakingQueue s ! i), c]"
    using findMatch_hit_room [OF m] by (simp add: occupants_def)
next
  assume "\<forall>e \<in> set (matchmakingQueue s'). \<not> compatible e tc' ig'"
  then have "\<forall>k. 0 \<le> k \<and> k < length (matchmakingQueue s') \<longrightarrow>
               \<not> compatible (matchmakingQueue s' ! k) tc' ig'"
    by simp
  then have "matchLoop (matchmakingQueue s') tc' ig' 0 = -1"
    by (simp only: matchLoop_miss)
  then show "findMatch s' c' tc' ig' rnd' =
        (s'\<lparr>matchmakingQueue := matchmakingQueue s' @
              [\<lparr>socketId = c', entryTimeControl = tc', ignoreTime = ig'\<rparr>]\<rparr>,
         [({c'}, Searching)])"
    by (rule findMatch_miss)
qed

theorem findMatch_first_fit_witness:
  "1 < length (matchmakingQueue twoWaiting) \<and>
   compatible (matchmakingQueue twoWaiting ! 1) ''5+0'' False \<and>
   \<not> compatible (matchmakingQueue twoWaiting ! 0) ''5+0'' False \<and>
   map socketId (matchmakingQueue
     (fst (findMatch twoWaiting ''B'' ''5+0'' False (0xAB, 0xC1, 0x23)))) = [''X''] \<and>
   occupants (fst (findMatch twoWaiting ''B'' ''5+0'' False (0xAB, 0xC1, 0x23))) ''ABC123'' =
     [''A'', ''B''] \<and>
   list_all (\<lambda>e. \<not> compatible e ''10+0'' False) (matchmakingQueue twoWaiting) \<and>
   map socketId (matchmakingQueue
     (fst (findMatch twoWaiting ''B'' ''10+0'' False (0xAB, 0xC1, 0x23)))) = [''X'', ''A'', ''B''] \<and>
   snd (findMatch twoWaiting ''B'' ''10+0'' False (0xAB, 0xC1, 0x23)) = [({''B''}, Searching)]"
  using findMatch_first_fit [of 1 twoWaiting "''5+0''" False "''B''" "(0xAB, 0xC1, 0x23)"
      twoWaiting "''10+0''" False "''B''" "(0xAB, 0xC1, 0x23)"]
  by (simp add: twoWaiting_queue compatible_def generateRoomId_ABC123 less_Suc_eq)

text \<open>
  C2. When findMatch selects a waiting entry, one time control \<open>v\<close> is stored in the
  new room and sent to both players, and it follows the four rules in order: the common
  value when both asked for the same time control; else the waiting entry's when only
  the requester ignores time; else the requester's when only the waiting entry ignores
  time; else both ignore time, the values differ, and the waiting entry's is used.
\<close>

theorem findMatch_time_control:
  assumes "matchLoop (matchmakingQueue s) tc ig 0 = int i"
    and "opponent = matchmakingQueue s ! i"
  shows "\<exists>v. mapGet (rooms (fst (findMatch s c tc ig rnd))) (generateRoomId rnd) =
            Some \<lparr>players = [socketId opponent, c], white = socketId opponent, black = Some c,
                  timeControl = Some v\<rparr> \<and>
          map snd (snd (findMatch s c tc ig rnd)) =
            [MatchFound (generateRoomId rnd) ''white'' v,
             MatchFound (generateRoomId rnd) ''black'' v] \<and>
          (entryTimeControl opponent = tc \<longrightarrow> v = tc) \<and>
          (entryTimeControl opponent \<noteq> tc \<and> \<not> ignoreTime opponent \<and> ig \<longrightarrow>
             v = entryTimeControl opponent) \<and>
          (entryTimeControl opponent \<noteq> tc \<and> ignoreTime opponent \<and> \<not> ig \<longrightarrow> v = tc) \<and>
          (entryTimeControl opponent \<noteq> tc \<and> \<not> (\<not> ignoreTime opponent \<and> ig) \<and>
           \<not> (ignoreTime opponent \<and> \<not> ig) \<longrightarrow>
             ignoreTime opponent \<and> ig \<and> v = entryTimeControl opponent)"
proof -
  from assms(1) have "matchLoop (matchmakingQueue s) tc ig 0 \<noteq> -1" by simp
  from matchLoop_hit [OF this] obtain j where
    "matchLoop (matchmakingQueue s) tc ig 0 = int j" "compatible (matchmakingQueue s ! j) tc ig"
    by blast
  with assms have comp: "compatible opponent tc ig" by simp
  let ?v = "finalTimeControl opponent tc ig"
  have "mapGet (rooms (fst (findMatch s c tc ig rnd))) (generateRoomId rnd) =
            Some \<lparr>players = [socketId opponent, c], white = socketId opponent, black = Some c,
                  timeControl = Some ?v\<rparr>"
    using findMatch_hit_room [OF assms(1)] assms(2) by simp
  moreover have "map snd (snd (findMatch s c tc ig rnd)) =
            [MatchFound (generateRoomId rnd) ''white'' ?v,
             MatchFound (generateRoomId rnd) ''black'' ?v]"
    using findMatch_hit_out [OF assms(1)] assms(2) by simp
  moreover have "entryTimeControl opponent = tc \<longrightarrow> ?v = tc"
    by (simp add: finalTimeControl_def)
  moreover have "entryTimeControl opponent \<noteq> tc \<and> \<not> ignoreTime opponent \<and> ig \<longrightarrow>
             ?v = entryTimeControl opponent"
    by (simp add: finalTimeControl_def)
  moreover have "entryTimeControl opponent \<noteq> tc \<and> ignoreTime opponent \<and> \<not> ig \<longrightarrow> ?v = tc"
    by (simp add: finalTimeControl_def)
  moreover have "entryTimeControl opponent \<noteq> tc \<and> \<not> (\<not> ignoreTime opponent \<and> ig) \<and>
           \<not> (ignoreTime opponent \<and> \<not> ig) \<longrightarrow>
             ignoreTime opponent \<and> ig \<and> ?v = entryTimeControl opponent"
    using comp by (auto simp: finalTimeControl_def compatible_def)
  ultimately show ?thesis by (intro exI [of _ ?v] conjI)
qed

lemma oneWaiting_hit:
  "compatible \<lparr>socketId = ''A'', entryTimeControl = tcA, ignoreTime = igA\<rparr> tc ig \<Longrightarrow>
   matchLoop (matchmakingQueue (oneWaiting tcA igA)) tc ig 0 = int 0"
  using matchLoop_first [of 0 0 "matchmakingQueue (oneWaiting tcA igA)" tc ig]
  by (simp add: oneWaiting_queue)

theorem findMatch_time_control_witness:
  "occupants (fst (findMatch (oneWaiting ''5+0'' False) ''B'' ''5+0'' False (0xAB, 0xC1, 0x23)))
     ''ABC123'' = [''A'', ''B''] \<and>
   map snd (snd (findMatch (oneWaiting ''5+0'' False) ''B'' ''5+0'' False (0xAB, 0xC1, 0x23))) =
     [MatchFound ''ABC123'' ''white'' ''5+0'', MatchFound ''ABC123'' ''black'' ''5+0''] \<and>
   map snd (snd (findMatch (oneWaiting ''3+0'' False) ''B'' ''10+0'' True (0xAB, 0xC1, 0x23))) =
     [MatchFound ''ABC123'' ''white'' ''3+0'', MatchFound ''ABC123'' ''black'' ''3+0''] \<and>
   map snd (snd (findMatch (oneWaiting ''1+0'' True) ''B'' ''15+10'' False (0xAB, 0xC1, 0x23))) =
     [MatchFound ''ABC123'' ''white'' ''15+10'', MatchFound ''ABC123'' ''black'' ''15+10''] \<and>
   map snd (snd (findMatch (oneWaiting ''1+0'' True) ''B'' ''15+10'' True (0xAB, 0xC1, 0x23))) =
     [MatchFound ''ABC123'' ''white'' ''1+0'', MatchFound ''ABC123'' ''black'' ''1+0'']"
proof -
  have same: "matchLoop (matchmakingQueue (oneWaiting ''5+0'' False)) ''5+0'' False 0 = int 0"
    by (rule oneWaiting_hit) (simp add: compatible_def)
  have r2: "matchLoop (matchmakingQueue (oneWaiting ''3+0'' False)) ''10+0'' True 0 = int 0"
    by (rule oneWaiting_hit) (simp add: compatible_def)
  have r3: "matchLoop (matchmakingQueue (oneWaiting ''1+0'' True)) ''15+10'' False 0 = int 0"
    by (rule oneWaiting_hit) (simp add: compatible_def)
  have r4: "matchLoop (matchmakingQueue (oneWaiting ''1+0'' True)) ''15+10'' True 0 = int 0"
    by (rule oneWaiting_hit) (simp add: compatible_def)
  show ?thesis
    using findMatch_time_control [OF same refl, of "''B''" "(0xAB, 0xC1, 0x23)"]
      findMatch_time_control [OF r2 refl, of "''B''" "(0xAB, 0xC1, 0x23)"]
      findMatch_time_control [OF r3 refl, of "''B''" "(0xAB, 0xC1, 0x23)"]
      findMatch_time_control [OF r4 refl, of "''B''" "(0xAB, 0xC1, 0x23)"]
    by (auto simp: oneWaiting_queue generateRoomId_ABC123 occupants_def)
qed

section \<open>A second findMatch from a waiting connection\<close>

lemma twoWaiting_scan_any: "matchLoop (matchmakingQueue twoWaiting) ''10+0'' True 0 = int 0"
  using matchLoop_first [of 0 0 "matchmakingQueue twoWaiting" "''10+0''" True]
  by (simp add: twoWaiting_queue compatible_def)

lemma twoWaiting_rooms: "rooms twoWaiting = []"
  by (simp add: twoWaiting_def initial_def handler_defs matchLoop.simps)

text \<open>
  With X waiting ahead of A, a request of A that ignores time is compatible with A's own
  entry, but the scan stops at X: the room is X against A, not A against itself.
\<close>

theorem self_match_counterexample:
  "socketId (matchmakingQueue twoWaiting ! 1) = ''A'' \<and>
   compatible (matchmakingQueue twoWaiting ! 1) ''10+0'' True \<and>
   occupants (fst (findMatch twoWaiting ''A'' ''10+0'' True (0xAB, 0xC1, 0x23))) ''ABC123'' =
     [''X'', ''A''] \<and>
   map fst (rooms (fst (findMatch twoWaiting ''A'' ''10+0'' True (0xAB, 0xC1, 0x23)))) =
     [''ABC123'']"
  using findMatch_hit_room [OF twoWaiting_scan_any, of "''A''" "(0xAB, 0xC1, 0x23)"]
    findMatch_hit [OF twoWaiting_scan_any, of "''A''" "(0xAB, 0xC1, 0x23)"]
  by (simp add: twoWaiting_queue twoWaiting_rooms compatible_def generateRoomId_ABC123
        occupants_def Let_def socketJoin_def)

text \<open>
  C10, amended. If a connection that holds a waiting entry issues a findMatch that is
  compatible with its own entry and with no entry ahead of it in the queue, it is matched
  with itself: its entry leaves the queue and the new room lists that connection twice,
  as white and as black.
\<close>

theorem findMatch_self_match:
  "i < length (matchmakingQueue s) \<and> socketId (matchmakingQueue s ! i) = c \<and>
   compatible (matchmakingQueue s ! i) tc ig \<and>
   (\<forall>j. j < i \<longrightarrow> \<not> compatible (matchmakingQueue s ! j) tc ig) \<longrightarrow>
     mapGet (rooms (fst (findMatch s c tc ig rnd))) (generateRoomId rnd) =
       Some \<lparr>players = [c, c], white = c, black = Some c,
             timeControl = Some (finalTimeControl (matchmakingQueue s ! i) tc ig)\<rparr> \<and>
     matchmakingQueue (fst (findMatch s c tc ig rnd)) =
       take i (matchmakingQueue s) @ drop (Suc i) (matchmakingQueue s)"
proof
  assume a: "i < length (matchmakingQueue s) \<and> socketId (matchmakingQueue s ! i) = c \<and>
   compatible (matchmakingQueue s ! i) tc ig \<and>
   (\<forall>j. j < i \<longrightarrow> \<not> compatible (matchmakingQueue s ! j) tc ig)"
  then have m: "matchLoop (matchmakingQueue s) tc ig 0 = int i"
    using matchLoop_first [of 0 i "matchmakingQueue s" tc ig] by simp
  from a findMatch_hit_room [OF m, of c rnd] findMatch_hit_queue [OF m, of c rnd]
  show "mapGet (rooms (fst (findMatch s c tc ig rnd))) (generateRoomId rnd) =
       Some \<lparr>players = [c, c], white = c, black = Some c,
             timeControl = Some (finalTimeControl (matchmakingQueue s ! i) tc ig)\<rparr> \<and>
     matchmakingQueue (fst (findMatch s c tc ig rnd)) =
       take i (matchmakingQueue s) @ drop (Suc i) (matchmakingQueue s)"
    by (simp add: splice1_def)
qed

theorem findMatch_self_match_witness:
  "socketId (matchmakingQueue (oneWaiting ''5+0'' False) ! 0) = ''A'' \<and>
   compatible (matchmakingQueue (oneWaiting ''5+0'' False) ! 0) ''5+0'' False \<and>
   mapGet (rooms (fst (findMatch (oneWaiting ''5+0'' False) ''A'' ''5+0'' False (0xAB, 0xC1, 0x23))))
       ''ABC123'' =
     Some \<lparr>players = [''A'', ''A''], white = ''A'', black = Some ''A'',
           timeControl = Some ''5+0''\<rparr> \<and>
   matchmakingQueue (fst (findMatch (oneWaiting ''5+0'' False) ''A'' ''5+0'' False (0xAB, 0xC1, 0x23)))
     = []"
  using findMatch_self_match [of 0 "oneWaiting ''5+0'' False" "''A''" "''5+0''" False
      "(0xAB, 0xC1, 0x23)"]
  by (simp add: oneWaiting_queue compatible_def generateRoomId_ABC123 finalTimeControl_def)

section \<open>The id of a matched room\<close>

lemma collisionState_scan: "matchLoop (matchmakingQueue collisionState) ''5+0'' False 0 = int 0"
proof -
  have "matchmakingQueue collisionState =
     [\<lparr>socketId = ''A'', entryTimeControl = ''5+0'', ignoreTime = False\<rparr>]"
    by (simp add: collisionState_def initial_def handler_defs matchLoop.simps)
  then show ?thesis
    using matchLoop_first [of 0 0 "matchmakingQueue collisionState" "''5+0''" False]
    by (simp add: compatible_def)
qed

text \<open>
  C5. The id of a matched room is the hexadecimal text of three random bytes and is
  stored with \<^verbatim>\<open>rooms.set\<close> without a look at the ids in use. With room ABC123
  live and the bytes AB, C1, 23 drawn, the match of A and B takes over the entry of X's
  room: the id is not fresh, the existing room is replaced, and X stays joined to the
  Socket.IO room that A and B now play in.
\<close>

theorem findMatch_roomId_collision:
  "mapGet (rooms collisionState) ''ABC123'' =
     Some \<lparr>players = [''X''], white = ''X'', black = None, timeControl = None\<rparr> \<and>
   generateRoomId (0xAB, 0xC1, 0x23) = ''ABC123'' \<and>
   rooms (fst (findMatch collisionState ''B'' ''5+0'' False (0xAB, 0xC1, 0x23))) =
     [(''ABC123'', \<lparr>players = [''A'', ''B''], white = ''A'', black = Some ''B'',
                     timeControl = Some ''5+0''\<rparr>)] \<and>
   adapterRooms (fst (findMatch collisionState ''B'' ''5+0'' False (0xAB, 0xC1, 0x23))) ''ABC123'' =
     {''B'', ''A'', ''X''}"
  using findMatch_hit [OF collisionState_scan, of "''B''" "(0xAB, 0xC1, 0x23)"]
  by (simp add: generateRoomId_ABC123 Let_def)
     (simp add: collisionState_def initial_def handler_defs matchLoop.simps
        finalTimeControl_def)

section \<open>One queue entry per connection\<close>

lemma queue_cancelMatchmaking:
  "matchmakingQueue (fst (cancelMatchmaking s c)) =
     (let i = findIndex (\<lambda>p. socketId p = c) (matchmakingQueue s)
      in if i > -1 then splice1 (matchmakingQueue s) (nat i) else matchmakingQueue s)"
  by (simp add: cancelMatchmaking_def Let_def)

lemma duplicateState_queue:
  "matchmakingQueue duplicateState =
     [\<lparr>socketId = ''A'', entryTimeControl = ''5+0'', ignoreTime = False\<rparr>,
      \<lparr>socketId = ''A'', entryTimeControl = ''3+0'', ignoreTime = False\<rparr>]"
  by (simp add: duplicateState_def initial_def handler_defs matchLoop.simps)

lemma staleState_rooms:
  "rooms staleState =
     [(''ABC123'', \<lparr>players = [''A'', ''B''], white = ''A'', black = Some ''B'',
                     timeControl = Some ''3+0''\<rparr>)]"
  by (simp add: staleState_def initial_def handler_defs matchLoop.simps
        generateRoomId_ABC123 finalTimeControl_def cleanRooms.simps)

lemma staleState_sockets: "sockets staleState = {''B''}"
  by (simp add: staleState_def initial_def handler_defs matchLoop.simps
        generateRoomId_ABC123 finalTimeControl_def)

text \<open>
  C4. findMatch appends an entry for the requester whenever the scan finds no compatible
  entry, without a look for an entry the requester already has: after two requests of A
  with different time controls the queue holds two entries of A. cancelMatchmaking and
  the disconnect handler each splice out one entry, the first, so after either of them A
  is still queued; after the disconnect the entry left behind is matched with B, and the
  new room lists the closed connection A.
\<close>

theorem findMatch_duplicate_entry:
  "map socketId (matchmakingQueue duplicateState) = [''A'', ''A''] \<and>
   \<not> queueDistinct duplicateState \<and>
   matchmakingQueue (fst (cancelMatchmaking duplicateState ''A'')) =
     [\<lparr>socketId = ''A'', entryTimeControl = ''3+0'', ignoreTime = False\<rparr>] \<and>
   matchmakingQueue (fst (disconnect duplicateState ''A'')) =
     [\<lparr>socketId = ''A'', entryTimeControl = ''3+0'', ignoreTime = False\<rparr>] \<and>
   sockets (fst (disconnect duplicateState ''A'')) = {} \<and>
   occupants staleState ''ABC123'' = [''A'', ''B''] \<and>
   sockets staleState = {''B''}"
  by (simp add: queueDistinct_def duplicateState_queue queue_cancelMatchmaking
        queue_disconnect splice1_def staleState_rooms staleState_sockets occupants_def
        mapGet_def)
     (simp add: disconnect_def socketClose_def Let_def duplicateState_def initial_def
        connection_def findMatch_def matchLoop.simps socketJoin_def socketEmit_def
        split: prod.splits)

section \<open>Cleanup on cancel and disconnect\<close>

lemma splice1_Cons_0: "splice1 (x # xs) 0 = xs"
  by (simp add: splice1_def)

lemma splice1_Cons_Suc: "splice1 (x # xs) (Suc n) = x # splice1 xs n"
  by (simp add: splice1_def)

lemma findIndex_ge: "findIndex P xs \<ge> -1"
  by (induction xs) (auto simp: Let_def)

lemma findIndex_none: "(findIndex P xs = -1) = (\<forall>x \<in> set xs. \<not> P x)"
proof (induction xs)
  case Nil
  then show ?case by simp
next
  case (Cons x xs)
  then show ?case using findIndex_ge [of P xs] by (auto simp: Let_def)
qed

lemma findIndex_splice1:
  "findIndex P xs > -1 \<Longrightarrow>
   length (filter P (splice1 xs (nat (findIndex P xs)))) = length (filter P xs) - 1"
proof (induction xs)
  case Nil
  then show ?case by simp
next
  case (Cons x xs)
  show ?case
  proof (cases "P x")
    case True
    then show ?thesis by (simp add: splice1_Cons_0)
  next
    case False
    with Cons.prems have r: "findIndex P xs > -1"
      using findIndex_ge [of P xs] by (auto simp: Let_def split: if_splits)
    then have n: "nat (findIndex P xs + 1) = Suc (nat (findIndex P xs))" by simp
    from r have "findIndex P (x # xs) = findIndex P xs + 1"
      using False by (simp add: Let_def)
    with False Cons.IH [OF r] n show ?thesis
      by (simp add: splice1_Cons_Suc)
  qed
qed

lemma filter_splice1_le: "length (filter P (splice1 xs i)) \<le> length (filter P xs)"
proof -
  have "filter P xs = filter P (take i xs) @ filter P (drop i xs)"
    by (metis append_take_drop_id filter_append)
  moreover have "length (filter P (drop (Suc i) xs)) \<le> length (filter P (drop i xs))"
  proof (cases "i < length xs")
    case True
    then have "drop i xs = xs ! i # drop (Suc i) xs" by (simp add: Cons_nth_drop_Suc)
    then show ?thesis by simp
  next
    case False
    then show ?thesis by simp
  qed
  ultimately show ?thesis by (simp add: splice1_def)
qed

lemma entriesOf_remove_first:
  "length (filter P (let i = findIndex P q in if i > -1 then splice1 q (nat i) else q)) =
   length (filter P q) - 1"
proof (cases "findIndex P q > -1")
  case True
  then show ?thesis by (simp add: findIndex_splice1)
next
  case False
  with findIndex_ge [of P q] have "findIndex P q = -1" by simp
  then have "filter P q = []" by (simp add: findIndex_none)
  with False show ?thesis by simp
qed

lemma entriesOf_cancelMatchmaking:
  "entriesOf (fst (cancelMatchmaking s c)) c = entriesOf s c - 1"
  unfolding entriesOf_def queue_cancelMatchmaking by (rule entriesOf_remove_first)

lemma entriesOf_disconnect: "entriesOf (fst (disconnect s c)) c = entriesOf s c - 1"
  unfolding entriesOf_def queue_disconnect by (rule entriesOf_remove_first)

lemma entriesOf_findMatch: "entriesOf (fst (findMatch s c tc ig rnd)) c \<le> entriesOf s c + 1"
proof (cases "matchLoop (matchmakingQueue s) tc ig 0 = -1")
  case True
  then show ?thesis by (simp add: findMatch_miss entriesOf_def)
next
  case False
  from matchLoop_hit [OF this] obtain j where
    "matchLoop (matchmakingQueue s) tc ig 0 = int j" by blast
  from findMatch_hit_queue [OF this, of c rnd] show ?thesis
    using filter_splice1_le [of "\<lambda>p. socketId p = c" "matchmakingQueue s" j]
    by (simp add: entriesOf_def)
qed

lemma cleanRooms_removes:
  "list_all (\<lambda>p. c \<notin> set (players (snd p))) (fst (cleanRooms c mem m))"
proof -
  have "c \<notin> set (players (snd p))" if "p \<in> set (fst (cleanRooms c mem m))" for p
    using cleanRooms_entries [OF that] by auto
  then show ?thesis by (simp add: list_all_iff)
qed

lemma cleanRooms_events: "list_all (\<lambda>e. snd e = OpponentDisconnected) (snd (cleanRooms c mem m))"
  by (induction m) (auto simp: Let_def split: prod.splits)

lemma cleanRooms_absent:
  "list_all (\<lambda>p. c \<notin> set (players (snd p))) m \<Longrightarrow> cleanRooms c mem m = (m, [])"
  by (induction m) auto

lemma cleanRooms_keeps:
  "(r, rm) \<in> set m \<Longrightarrow> c \<notin> set (players rm) \<Longrightarrow> (r, rm) \<in> set (fst (cleanRooms c mem m))"
  by (induction m) (auto simp: Let_def split: prod.splits)

lemma out_disconnect:
  "snd (disconnect s c) = snd (cleanRooms c (\<lambda>r. adapterRooms s r - {c}) (rooms s))"
  by (simp add: disconnect_def socketClose_def Let_def split: prod.splits)

lemma noError_findMatch: "noError (snd (findMatch s c tc ig rnd))"
  by (simp add: findMatch_def Let_def noError_def ioTo_def socketEmit_def)

lemma noError_disconnect: "noError (snd (disconnect s c))"
proof -
  have "\<not> isError (snd e)" if "snd e = OpponentDisconnected" for e :: emission
    using that by simp
  with cleanRooms_events [of c "\<lambda>r. adapterRooms s r - {c}" "rooms s"] show ?thesis
    by (simp add: noError_def out_disconnect list_all_iff)
qed

lemma disconnect_absent:
  assumes "entriesOf t c = 0" and "inNoRoom t c"
  shows "disconnect t c = (socketClose t c, [])"
proof -
  from assms(1) have "\<forall>x \<in> set (matchmakingQueue t). socketId x \<noteq> c"
    by (auto simp: entriesOf_def filter_empty_conv)
  then have "findIndex (\<lambda>p. socketId p = c) (matchmakingQueue t) = -1"
    by (simp add: findIndex_none)
  moreover from assms(2) have
    "cleanRooms c (\<lambda>r. adapterRooms t r - {c}) (rooms t) = (rooms t, [])"
    by (simp add: inNoRoom_def cleanRooms_absent)
  ultimately show ?thesis
    by (simp add: disconnect_def socketClose_def Let_def)
qed

lemma freshC_queue: "matchmakingQueue freshC = []"
  by (simp add: freshC_def initial_def handler_defs)

lemma fullRoomState_queue: "matchmakingQueue fullRoomState = []"
  by (simp add: fullRoomState_def initial_def handler_defs)

lemma freshC_enqueued:
  "matchmakingQueue (fst (findMatch freshC ''C'' ''5+0'' False (0, 0, 0))) =
     [\<lparr>socketId = ''C'', entryTimeControl = ''5+0'', ignoreTime = False\<rparr>]"
  by (simp add: findMatch_def freshC_queue matchLoop.simps)

text \<open>
  C9. Neither cancelMatchmaking nor the disconnect handler has an operation that can
  fail: the queue is spliced only behind the test of the index that findIndex returned,
  and a room is filtered only behind the membership test, so the model has no error
  outcome for them and none of the steps emits the error event. For a connection that
  holds at most one queue entry (none, for a fresh connection) when it asks for a match,
  then cancels, then disconnects, the final state has no queue entry of the connection
  and no room that lists it. Every removal is a no-op on an absent target: with no entry
  of the connection, cancelMatchmaking returns the state as it was and disconnect leaves
  the queue as it was; a room that does not list the connection is kept as it is; when the
  connection holds nothing, disconnect emits nothing and changes only the membership
  kept by Socket.IO, and a second disconnect changes nothing at all.
\<close>

theorem cleanup_after_cancel:
  "(entriesOf s c \<le> 1 \<longrightarrow>
      entriesOf (fst (disconnect (fst (cancelMatchmaking (fst (findMatch s c tc ig rnd)) c)) c)) c
        = 0 \<and>
      inNoRoom (fst (disconnect (fst (cancelMatchmaking (fst (findMatch s c tc ig rnd)) c)) c)) c) \<and>
   noError (snd (findMatch s c tc ig rnd)) \<and>
   snd (cancelMatchmaking s' c) = [] \<and>
   noError (snd (disconnect s' c)) \<and>
   inNoRoom (fst (disconnect s' c)) c \<and>
   (entriesOf t c = 0 \<longrightarrow>
      cancelMatchmaking t c = (t, []) \<and>
      matchmakingQueue (fst (disconnect t c)) = matchmakingQueue t) \<and>
   ((r, rm) \<in> set (rooms t) \<and> c \<notin> set (players rm) \<longrightarrow>
      (r, rm) \<in> set (rooms (fst (disconnect t c)))) \<and>
   (inNoRoom t c \<longrightarrow> rooms (fst (disconnect t c)) = rooms t \<and> snd (disconnect t c) = []) \<and>
   (entriesOf t c = 0 \<and> inNoRoom t c \<longrightarrow>
      disconnect t c = (socketClose t c, []) \<and>
      disconnect (fst (disconnect t c)) c = (fst (disconnect t c), []))"
proof -
  let ?s1 = "fst (findMatch s c tc ig rnd)"
  let ?s2 = "fst (cancelMatchmaking ?s1 c)"
  have rooms_clean: "inNoRoom (fst (disconnect u c)) c" for u
    by (simp add: inNoRoom_def rooms_disconnect cleanRooms_removes)
  have q: "entriesOf (fst (disconnect ?s2 c)) c = 0" if "entriesOf s c \<le> 1"
  proof -
    have "entriesOf ?s1 c \<le> 2" using entriesOf_findMatch [of s c tc ig rnd] that by simp
    then show ?thesis by (simp add: entriesOf_disconnect entriesOf_cancelMatchmaking)
  qed
  have none: "findIndex (\<lambda>p. socketId p = c) (matchmakingQueue t) = -1" if "entriesOf t c = 0"
    using that by (auto simp: entriesOf_def filter_empty_conv findIndex_none)
  have c1: "cancelMatchmaking t c = (t, [])" if "entriesOf t c = 0"
    using none [OF that] by (simp add: cancelMatchmaking_def)
  have c2: "matchmakingQueue (fst (disconnect t c)) = matchmakingQueue t" if "entriesOf t c = 0"
    using none [OF that] by (simp add: queue_disconnect)
  have c3: "(r, rm) \<in> set (rooms (fst (disconnect t c)))"
    if "(r, rm) \<in> set (rooms t)" "c \<notin> set (players rm)"
    using that by (simp add: rooms_disconnect cleanRooms_keeps)
  have c4: "rooms (fst (disconnect t c)) = rooms t \<and> snd (disconnect t c) = []" if "inNoRoom t c"
    using that by (simp add: rooms_disconnect out_disconnect inNoRoom_def cleanRooms_absent)
  have c5: "disconnect t c = (socketClose t c, []) \<and>
      disconnect (fst (disconnect t c)) c = (fst (disconnect t c), [])"
    if h: "entriesOf t c = 0" "inNoRoom t c"
  proof -
    have d: "disconnect t c = (socketClose t c, [])" by (rule disconnect_absent [OF h])
    have "entriesOf (socketClose t c) c = 0" "inNoRoom (socketClose t c) c"
      using h by (simp_all add: entriesOf_def inNoRoom_def socketClose_def)
    from disconnect_absent [OF this]
    have "disconnect (socketClose t c) c = (socketClose (socketClose t c) c, [])" .
    moreover have "socketClose (socketClose t c) c = socketClose t c"
      by (simp add: socketClose_def)
    ultimately show ?thesis using d by simp
  qed
  have c6: "snd (cancelMatchmaking s' c) = []"
    by (simp add: cancelMatchmaking_def Let_def)
  have k1: "entriesOf s c \<le> 1 \<longrightarrow>
      entriesOf (fst (disconnect ?s2 c)) c = 0 \<and> inNoRoom (fst (disconnect ?s2 c)) c"
    using q rooms_clean [of ?s2] by simp
  have k2: "entriesOf t c = 0 \<longrightarrow>
      cancelMatchmaking t c = (t, []) \<and>
      matchmakingQueue (fst (disconnect t c)) = matchmakingQueue t"
    using c1 c2 by simp
  have k3: "(r, rm) \<in> set (rooms t) \<and> c \<notin> set (players rm) \<longrightarrow>
      (r, rm) \<in> set (rooms (fst (disconnect t c)))"
    using c3 by simp
  have k4: "inNoRoom t c \<longrightarrow> rooms (fst (disconnect t c)) = rooms t \<and> snd (disconnect t c) = []"
    using c4 by simp
  have k5: "entriesOf t c = 0 \<and> inNoRoom t c \<longrightarrow>
      disconnect t c = (socketClose t c, []) \<and>
      disconnect (fst (disconnect t c)) c = (fst (disconnect t c), [])"
    using c5 by blast
  from k1 noError_findMatch [of s c tc ig rnd] c6 noError_disconnect [of s' c]
    rooms_clean [of s'] k2 k3 k4 k5
  show ?thesis by (intro conjI)
qed

theorem cleanup_after_cancel_witness:
  "entriesOf freshC ''C'' \<le> 1 \<and>
   entriesOf (fst (findMatch freshC ''C'' ''5+0'' False (0, 0, 0))) ''C'' = 1 \<and>
   entriesOf (fst (disconnect (fst (cancelMatchmaking
      (fst (findMatch freshC ''C'' ''5+0'' False (0, 0, 0))) ''C'')) ''C'')) ''C'' = 0 \<and>
   inNoRoom (fst (disconnect (fst (cancelMatchmaking
      (fst (findMatch freshC ''C'' ''5+0'' False (0, 0, 0))) ''C'')) ''C'')) ''C'' \<and>
   entriesOf fullRoomState ''C'' = 0 \<and>
   inNoRoom fullRoomState ''C'' \<and>
   (''ABC123'', \<lparr>players = [''A'', ''B''], white = ''A'', black = Some ''B'', timeControl = None\<rparr>)
     \<in> set (rooms fullRoomState) \<and>
   cancelMatchmaking fullRoomState ''C'' = (fullRoomState, []) \<and>
   rooms (fst (disconnect fullRoomState ''C'')) = rooms fullRoomState \<and>
   matchmakingQueue (fst (disconnect fullRoomState ''C'')) = [] \<and>
   snd (disconnect fullRoomState ''C'') = [] \<and>
   disconnect (fst (disconnect fullRoomState ''C'')) ''C'' = (fst (disconnect fullRoomState ''C''), [])"
proof -
  let ?s1 = "fst (findMatch freshC ''C'' ''5+0'' False (0, 0, 0))"
  let ?s2 = "fst (cancelMatchmaking ?s1 ''C'')"
  let ?rm = "\<lparr>players = [''A'', ''B''], white = ''A'', black = Some ''B'', timeControl = None\<rparr>"
  note th = cleanup_after_cancel [of freshC "''C''" "''5+0''" False "(0, 0, 0)" ?s2
      fullRoomState "''ABC123''" ?rm]
  have h1: "entriesOf freshC ''C'' \<le> 1" by (simp add: entriesOf_def freshC_queue)
  have h2: "entriesOf ?s1 ''C'' = 1" by (simp add: entriesOf_def freshC_enqueued)
  have h3: "entriesOf fullRoomState ''C'' = 0" by (simp add: entriesOf_def fullRoomState_queue)
  have h4: "inNoRoom fullRoomState ''C''" by (simp add: inNoRoom_def fullRoomState_rooms)
  have h5: "(''ABC123'', ?rm) \<in> set (rooms fullRoomState)" by (simp add: fullRoomState_rooms)
  from th h1 have a: "entriesOf (fst (disconnect ?s2 ''C'')) ''C'' = 0 \<and>
      inNoRoom (fst (disconnect ?s2 ''C'')) ''C''" by blast
  from th h3 have b: "cancelMatchmaking fullRoomState ''C'' = (fullRoomState, []) \<and>
      matchmakingQueue (fst (disconnect fullRoomState ''C'')) = matchmakingQueue fullRoomState"
    by blast
  from th h4 have c: "rooms (fst (disconnect fullRoomState ''C'')) = rooms fullRoomState \<and>
      snd (disconnect fullRoomState ''C'') = []" by blast
  from th h3 h4 have d: "disconnect (fst (disconnect fullRoomState ''C'')) ''C'' =
      (fst (disconnect fullRoomState ''C''), [])" by blast
  from b have b': "matchmakingQueue (fst (disconnect fullRoomState ''C'')) = []"
    by (simp add: fullRoomState_queue)
  from h1 h2 a h3 h4 h5 b b' c d show ?thesis by (intro conjI) simp_all
qed

section \<open>Relaying in-game signals\<close>

lemma fullRoomState_members: "adapterRooms fullRoomState ''ABC123'' = {''A'', ''B''}"
  by (auto simp: fullRoomState_def initial_def handler_defs)

lemma fullRoomState_unused: "adapterRooms fullRoomState ''ZZZ999'' = {}"
  by (simp add: fullRoomState_def initial_def handler_defs)

lemma fullRoomState_own:
  "adapterRooms fullRoomState ''A'' = {''A''}"
  "adapterRooms fullRoomState ''C'' = {''C''}"
  by (simp_all add: fullRoomState_def initial_def handler_defs)

lemma fullRoomState_occupants: "occupants fullRoomState ''ABC123'' = [''A'', ''B'']"
  by (simp add: occupants_def fullRoomState_rooms mapGet_def)

lemma recipients_single [simp]: "recipients [(R, ev)] = R"
  by (simp add: recipients_def)

lemma delivered_single: "delivered [(R, ev)] a e = (e = ev \<and> a \<in> R)"
  by (auto simp: delivered_def)

text \<open>
  C is connected and occupies no room; its move naming room ABC123 is delivered to both
  occupants of that room.
\<close>

theorem relay_unchecked_counterexample:
  "''C'' \<notin> set (occupants fullRoomState ''ABC123'') \<and>
   snd (move fullRoomState ''C'' ''ABC123'' sampleMove) =
     [({''A'', ''B''}, OpponentMove sampleMove)] \<and>
   delivered (snd (move fullRoomState ''C'' ''ABC123'' sampleMove)) ''A'' (OpponentMove sampleMove)"
  by (simp add: fullRoomState_occupants move_def socketTo_def fullRoomState_members
        fullRoomState_own delivered_def)

text \<open>
  C1, amended. A relayed in-game signal (move, gameOver, rematchRequest, rematchAccept,
  rematchDecline) is not checked against the occupant list of the named room. The handler
  changes no state and emits the payload once, to every connection that is joined to the
  Socket.IO room of that name and not joined to the room named by the sender's id,
  whether or not the sender occupies the room. Nothing is delivered when every connection
  joined to the named room is excepted in this way, as for an id no room ever had. When
  the room named by the sender's id holds the sender alone and the connections joined to
  the named room are exactly its occupants, the payload reaches exactly the occupants
  other than the sender.
\<close>

theorem relay_delivery:
  "(sg \<in> {Move r d, GameOver r x, RematchRequest r, RematchAccept r, RematchDecline r} \<longrightarrow>
      fst (handle s (c, sg)) = s \<and>
      length (snd (handle s (c, sg))) = 1 \<and>
      recipients (snd (handle s (c, sg))) = adapterRooms s r - adapterRooms s c \<and>
      (adapterRooms s r \<subseteq> adapterRooms s c \<longrightarrow> recipients (snd (handle s (c, sg))) = {}) \<and>
      (adapterRooms s c = {c} \<and> adapterRooms s r = set (occupants s r) \<longrightarrow>
         recipients (snd (handle s (c, sg))) = set (occupants s r) - {c})) \<and>
   map snd (snd (move s c r d)) = [OpponentMove d] \<and>
   map snd (snd (gameOver s c r x)) = [GameOverEv x] \<and>
   map snd (snd (rematchRequest s c r)) = [RematchRequestEv] \<and>
   map snd (snd (rematchAccept s c r)) = [RematchAccepted] \<and>
   map snd (snd (rematchDecline s c r)) = [RematchDeclined]"
proof -
  have "fst (handle s (c, sg)) = s \<and> length (snd (handle s (c, sg))) = 1 \<and>
        recipients (snd (handle s (c, sg))) = adapterRooms s r - adapterRooms s c"
    if "sg \<in> {Move r d, GameOver r x, RematchRequest r, RematchAccept r, RematchDecline r}"
    using that
    by (auto simp: move_def gameOver_def rematchRequest_def rematchAccept_def
          rematchDecline_def socketTo_def)
  moreover have "A - B = {}" if "A \<subseteq> B" for A B :: "sid set"
    using that by auto
  ultimately show ?thesis
    by (simp add: move_def gameOver_def rematchRequest_def rematchAccept_def
          rematchDecline_def socketTo_def)
qed

theorem relay_delivery_witness:
  "fst (move fullRoomState ''A'' ''ABC123'' sampleMove) = fullRoomState \<and>
   adapterRooms fullRoomState ''A'' = {''A''} \<and>
   adapterRooms fullRoomState ''ABC123'' = set (occupants fullRoomState ''ABC123'') \<and>
   recipients (snd (move fullRoomState ''A'' ''ABC123'' sampleMove)) = {''B''} \<and>
   map snd (snd (move fullRoomState ''A'' ''ABC123'' sampleMove)) = [OpponentMove sampleMove] \<and>
   adapterRooms fullRoomState ''ZZZ999'' \<subseteq> adapterRooms fullRoomState ''A'' \<and>
   recipients (snd (gameOver fullRoomState ''A'' ''ZZZ999'' ''checkmate'')) = {}"
proof -
  have m: "Move ''ABC123'' sampleMove \<in> {Move ''ABC123'' sampleMove,
      GameOver ''ABC123'' ''checkmate'', RematchRequest ''ABC123'', RematchAccept ''ABC123'',
      RematchDecline ''ABC123''}" by simp
  have g: "GameOver ''ZZZ999'' ''checkmate'' \<in> {Move ''ZZZ999'' sampleMove,
      GameOver ''ZZZ999'' ''checkmate'', RematchRequest ''ZZZ999'', RematchAccept ''ZZZ999'',
      RematchDecline ''ZZZ999''}" by simp
  have own: "adapterRooms fullRoomState ''A'' = {''A''}"
    by (simp add: fullRoomState_own)
  have eq: "adapterRooms fullRoomState ''ABC123'' = set (occupants fullRoomState ''ABC123'')"
    by (simp add: fullRoomState_members fullRoomState_occupants)
  have sub: "adapterRooms fullRoomState ''ZZZ999'' \<subseteq> adapterRooms fullRoomState ''A''"
    by (simp add: fullRoomState_unused)
  note t1 = relay_delivery [of "Move ''ABC123'' sampleMove" "''ABC123''" sampleMove
      "''checkmate''" fullRoomState "''A''"]
  note t2 = relay_delivery [of "GameOver ''ZZZ999'' ''checkmate''" "''ZZZ999''" sampleMove
      "''checkmate''" fullRoomState "''A''"]
  from t1 m own eq have a:
    "fst (handle fullRoomState (''A'', Move ''ABC123'' sampleMove)) = fullRoomState \<and>
     recipients (snd (handle fullRoomState (''A'', Move ''ABC123'' sampleMove))) =
       set (occupants fullRoomState ''ABC123'') - {''A''}" by blast
  from t1 have b: "map snd (snd (move fullRoomState ''A'' ''ABC123'' sampleMove)) =
      [OpponentMove sampleMove]" by blast
  from t2 g sub have c:
    "recipients (snd (handle fullRoomState (''A'', GameOver ''ZZZ999'' ''checkmate''))) = {}"
    by blast
  from a have a': "recipients (snd (move fullRoomState ''A'' ''ABC123'' sampleMove)) = {''B''}"
    by (auto simp: fullRoomState_occupants)
  from a a' b c own eq sub show ?thesis by (intro conjI) simp_all
qed

section \<open>Leaving a room\<close>

text \<open>
  What leaveRoom does for an occupant of the room: every occurrence of the connection is
  removed from the occupant list; a room left without occupants is deleted and nothing is
  emitted; otherwise the room stays and ``opponentDisconnected'' goes to the connections
  joined to the Socket.IO room and not to the room named by the leaver's id.
\<close>

lemma leaveRoom_occupant:
  assumes "mapGet (rooms s) r = Some rm" and "c \<in> set (players rm)"
  shows "occupants (fst (leaveRoom s c r)) r = filter (\<lambda>i. i \<noteq> c) (players rm)"
    and "filter (\<lambda>i. i \<noteq> c) (players rm) = [] \<Longrightarrow>
           mapGet (rooms (fst (leaveRoom s c r))) r = None \<and> snd (leaveRoom s c r) = []"
    and "filter (\<lambda>i. i \<noteq> c) (players rm) \<noteq> [] \<Longrightarrow>
           mapGet (rooms (fst (leaveRoom s c r))) r =
             Some (rm\<lparr>players := filter (\<lambda>i. i \<noteq> c) (players rm)\<rparr>) \<and>
           snd (leaveRoom s c r) =
             [(adapterRooms s r - adapterRooms s c, OpponentDisconnected)]"
proof -
  let ?ps = "filter (\<lambda>i. i \<noteq> c) (players rm)"
  have e: "leaveRoom s c r =
        (socketLeave (s\<lparr>rooms := mapDelete r (rooms s)\<rparr>) c r, [])" if "?ps = []"
    using assms that by (simp add: leaveRoom_def Let_def)
  have n: "leaveRoom s c r =
        (socketLeave (s\<lparr>rooms := mapSet r (rm\<lparr>players := ?ps\<rparr>) (rooms s)\<rparr>) c r,
         [(adapterRooms s r - adapterRooms s c, OpponentDisconnected)])" if "?ps \<noteq> []"
    using assms that by (simp add: leaveRoom_def Let_def socketTo_def)
  show "?ps = [] \<Longrightarrow>
      mapGet (rooms (fst (leaveRoom s c r))) r = None \<and> snd (leaveRoom s c r) = []"
    by (simp add: e socketLeave_def mapGet_mapDelete)
  show "?ps \<noteq> [] \<Longrightarrow>
      mapGet (rooms (fst (leaveRoom s c r))) r = Some (rm\<lparr>players := ?ps\<rparr>) \<and>
      snd (leaveRoom s c r) = [(adapterRooms s r - adapterRooms s c, OpponentDisconnected)]"
    by (simp add: n socketLeave_def mapGet_mapSet)
  show "occupants (fst (leaveRoom s c r)) r = ?ps"
  proof (cases "?ps = []")
    case True
    then show ?thesis by (simp add: e occupants_def socketLeave_def mapGet_mapDelete)
  next
    case False
    then show ?thesis by (simp add: n occupants_def socketLeave_def mapGet_mapSet)
  qed
qed

lemma staleState_members:
  "adapterRooms staleState ''ABC123'' = {''B''}"
  "adapterRooms staleState ''B'' = {''B''}"
  by (simp_all add: staleState_def initial_def handler_defs matchLoop.simps
        generateRoomId_ABC123 finalTimeControl_def)

lemma exceptState_rooms:
  "mapGet (rooms exceptState) ''ABC123'' =
     Some \<lparr>players = [''A'', ''B''], white = ''A'', black = Some ''B'', timeControl = None\<rparr>"
  by (simp add: exceptState_def initial_def handler_defs)

lemma exceptState_members:
  "adapterRooms exceptState ''ABC123'' = {''A'', ''B''}"
  "adapterRooms exceptState ''A'' = {''A'', ''B''}"
  "sockets exceptState = {''A'', ''B''}"
  by (auto simp: exceptState_def initial_def handler_defs)

text \<open>
  C6. leaveRoom removes the leaver from the occupant list and keeps the room while an
  occupant remains, but the remaining occupant is not always notified, against the
  comment ``Notify remaining player'' of line 415. In the room that B shares with the
  queue entry A left behind when it disconnected, B leaves: the room stays with the
  closed connection A as its only occupant and the notification reaches nobody. And
  with A and B connected in room ABC123, B also joined to the room named by the socket
  id of A, A leaves: B remains, is joined to ABC123, and receives nothing, because
  \<^verbatim>\<open>socket.to\<close> excepts every socket joined to the room named by the leaver's id.
\<close>

theorem leaveRoom_remaining_not_notified:
  "occupants staleState ''ABC123'' = [''A'', ''B''] \<and>
   sockets staleState = {''B''} \<and>
   occupants (fst (leaveRoom staleState ''B'' ''ABC123'')) ''ABC123'' = [''A''] \<and>
   snd (leaveRoom staleState ''B'' ''ABC123'') = [({}, OpponentDisconnected)] \<and>
   \<not> delivered (snd (leaveRoom staleState ''B'' ''ABC123'')) ''A'' OpponentDisconnected \<and>
   occupants exceptState ''ABC123'' = [''A'', ''B''] \<and>
   sockets exceptState = {''A'', ''B''} \<and>
   ''B'' \<in> adapterRooms exceptState ''ABC123'' \<and>
   occupants (fst (leaveRoom exceptState ''A'' ''ABC123'')) ''ABC123'' = [''B''] \<and>
   snd (leaveRoom exceptState ''A'' ''ABC123'') = [({}, OpponentDisconnected)] \<and>
   \<not> delivered (snd (leaveRoom exceptState ''A'' ''ABC123'')) ''B'' OpponentDisconnected"
proof -
  have s1: "mapGet (rooms staleState) ''ABC123'' =
      Some \<lparr>players = [''A'', ''B''], white = ''A'', black = Some ''B'',
            timeControl = Some ''3+0''\<rparr>"
    by (simp add: staleState_rooms mapGet_def)
  have "occupants staleState ''ABC123'' = [''A'', ''B'']"
    by (simp add: occupants_def s1)
  moreover have "sockets staleState = {''B''}" by (rule staleState_sockets)
  moreover have "occupants (fst (leaveRoom staleState ''B'' ''ABC123'')) ''ABC123'' = [''A'']"
    using leaveRoom_occupant(1) [OF s1, of "''B''"] by simp
  moreover have o1: "snd (leaveRoom staleState ''B'' ''ABC123'') = [({}, OpponentDisconnected)]"
    using leaveRoom_occupant(3) [OF s1, of "''B''"] by (simp add: staleState_members)
  moreover have
    "\<not> delivered (snd (leaveRoom staleState ''B'' ''ABC123'')) ''A'' OpponentDisconnected"
    by (simp add: o1 delivered_single)
  moreover have "occupants exceptState ''ABC123'' = [''A'', ''B'']"
    by (simp add: occupants_def exceptState_rooms)
  moreover have "sockets exceptState = {''A'', ''B''}" by (rule exceptState_members)
  moreover have "''B'' \<in> adapterRooms exceptState ''ABC123''"
    by (simp add: exceptState_members)
  moreover have "occupants (fst (leaveRoom exceptState ''A'' ''ABC123'')) ''ABC123'' = [''B'']"
    using leaveRoom_occupant(1) [OF exceptState_rooms, of "''A''"] by simp
  moreover have o2: "snd (leaveRoom exceptState ''A'' ''ABC123'') = [({}, OpponentDisconnected)]"
    using leaveRoom_occupant(3) [OF exceptState_rooms, of "''A''"]
    by (simp add: exceptState_members)
  moreover have
    "\<not> delivered (snd (leaveRoom exceptState ''A'' ''ABC123'')) ''B'' OpponentDisconnected"
    by (simp add: o2 delivered_single)
  ultimately show ?thesis by (intro conjI)
qed

end
